theory Spec2Isabelle
  imports Complex_Main "HOL-Library.Sublist"
begin

section \<open>Errors and arrays\<close>

text \<open>
  The script \<^verbatim>\<open>mlx_vlm/generate.py\<close> raises Python exceptions. Every exception is a
  value of \<open>error\<close>; a function that can raise returns \<open>error + 'a\<close> with \<open>Inl\<close> for
  the exception. \<open>IOError\<close> stands for Python's \<^verbatim>\<open>OSError\<close> family, \<open>OtherError\<close>
  for any exception of a collaborator that is none of the named ones.
\<close>

datatype error = ValueError string | IndexError string | IOError string | OtherError string

text \<open>\<^verbatim>\<open>str(e)\<close>, as the f-strings of \<^verbatim>\<open>load_image\<close> print it.\<close>

fun err_str :: "error \<Rightarrow> string" where
  "err_str (ValueError s) = s"
| "err_str (IndexError s) = s"
| "err_str (IOError s) = s"
| "err_str (OtherError s) = s"

text \<open>
  Arrays are nested lists with the axes of the source: token ids are
  \<open>int list list\<close> (batch, position), the logits a model returns are
  \<open>real list list list\<close> (batch, position, vocabulary). Scores are real numbers: the
  floating-point values of the source without NaN, whose comparisons are those of a
  linear order.
\<close>

type_synonym ids = "int list list"
type_synonym logits = "real list list list"

fun map_result :: "('a \<Rightarrow> error + 'b) \<Rightarrow> 'a list \<Rightarrow> error + 'b list" where
  "map_result f [] = Inr []"
| "map_result f (x # xs) =
     (case f x of Inl e \<Rightarrow> Inl e
      | Inr y \<Rightarrow> (case map_result f xs of Inl e \<Rightarrow> Inl e | Inr ys \<Rightarrow> Inr (y # ys)))"

text \<open>\<^verbatim>\<open>logits[:, -1, :]\<close>: the last position of every batch row; index \<open>-1\<close> is out of
  range on an axis of size 0.\<close>

definition last_position :: "logits \<Rightarrow> error + real list list" where
  "last_position l =
     map_result (\<lambda>row. if row = [] then Inl (IndexError ''index -1 is out of bounds'')
                        else Inr (last row)) l"

text \<open>\<^verbatim>\<open>y.item()\<close>: the scalar of an array that holds exactly one element.\<close>

definition item :: "int list \<Rightarrow> error + int" where
  "item y = (case y of [t] \<Rightarrow> Inr t
             | _ \<Rightarrow> Inl (ValueError ''item can only be called on arrays of size 1''))"

section \<open>Sampling\<close>

text \<open>
  Modelled from the spec: \<^verbatim>\<open>mx.argmax\<close> belongs to the array library and is not part of
  the repository. The specification gives its result as the index of the maximum logit,
  ties broken by first occurrence in index order. It is written here as the
  left-to-right scan that keeps the best index seen so far and replaces it only by a
  strictly greater score; an empty axis has no maximum and the call raises.
\<close>

fun argmax_scan :: "real list \<Rightarrow> nat \<Rightarrow> nat \<Rightarrow> real \<Rightarrow> nat" where
  "argmax_scan [] i best v = best"
| "argmax_scan (x # xs) i best v =
     (if v < x then argmax_scan xs (Suc i) i x else argmax_scan xs (Suc i) best v)"

definition argmax :: "real list \<Rightarrow> error + int" where
  "argmax xs = (case xs of [] \<Rightarrow> Inl (ValueError ''cannot argmax reduce zero size array'')
                | x # rest \<Rightarrow> Inr (int (argmax_scan rest 1 0 x)))"

text \<open>
  \<^verbatim>\<open>mx.random.categorical\<close> draws from the library's global random state. The draw is a
  parameter \<open>categorical\<close> of the model: it takes the rescaled scores and the random
  state \<open>'g\<close> and returns the drawn indices with the next state.

  \<^verbatim>\<open>
  def sample(logits, temperature=0.0):
      if temperature == 0:
          return mx.argmax(logits, axis=-1)
      else:
          return mx.random.categorical(logits * (1 / temperature))
  \<close>
\<close>

type_synonym 'g sampler = "real list list \<Rightarrow> 'g \<Rightarrow> error + (int list \<times> 'g)"

definition sample :: "'g sampler \<Rightarrow> real list list \<Rightarrow> real \<Rightarrow> 'g \<Rightarrow> error + (int list \<times> 'g)" where
  "sample categorical l temperature g =
     (if temperature = 0 then
        (case map_result argmax l of Inl e \<Rightarrow> Inl e | Inr y \<Rightarrow> Inr (y, g))
      else categorical (map (map (\<lambda>x. x * (1 / temperature))) l) g)"

section \<open>The generation loop\<close>

text \<open>
  The model object offers the two callables of the loop: the full model (prompt ids and
  pixel values) and the language model alone (ids and cache). Both return the logits and
  a cache, or raise. The cache type \<open>'c\<close> is opaque.
\<close>

record ('px, 'c) vlm =
  full_model :: "ids \<Rightarrow> 'px \<Rightarrow> error + (logits \<times> 'c)"
  language_model :: "ids \<Rightarrow> 'c \<Rightarrow> error + (logits \<times> 'c)"

text \<open>
  The processor, as far as the script uses it: whether its instance dictionary has the
  keys \<^verbatim>\<open>chat_template\<close> and \<^verbatim>\<open>tokenizer\<close>, the two template methods (applied to the
  single user message built from the prompt), the call on a text chunk
  (\<^verbatim>\<open>processor(chunk).input_ids\<close>), the joint call on prompt and image, the
  end-of-sequence id (\<^verbatim>\<open>None\<close> when the tokenizer has none) and \<^verbatim>\<open>decode\<close>.
\<close>

record ('img, 'px) processor =
  has_chat_template :: bool
  has_tokenizer :: bool
  apply_chat_template :: "string \<Rightarrow> error + string"
  tokenizer_apply_chat_template :: "string \<Rightarrow> error + string"
  input_ids_of :: "string \<Rightarrow> int list"
  joint_call :: "string \<Rightarrow> 'img \<Rightarrow> error + (ids \<times> 'px)"
  eos_token_id :: "int option"
  decode :: "int list \<Rightarrow> string"

text \<open>
  A record of the model calls made, in order, kept beside the computation: which
  callable was invoked on which arguments, the cache it returned and the array \<open>y\<close>
  sampled from its logits. It does not influence the result.
\<close>

datatype ('px, 'c) call = Prefill ids 'px | Decode ids 'c

record ('px, 'c) step =
  invoked :: "('px, 'c) call"
  returned_cache :: 'c
  sampled :: "int list"

text \<open>
  \<^verbatim>\<open>
  for n in range(max_tokens - 1):
      logits, cache = model.language_model(y[None], cache=cache)
      logits = logits[:, -1, :]
      y = sample(logits, temperature)
      token = y.item()
      if token == processor.eos_token_id:
          break
      tokens.append(token)
  \<close>
  The first argument after the parameters counts the iterations still to run.
\<close>

fun decode_loop ::
  "('px, 'c) vlm \<Rightarrow> int option \<Rightarrow> 'g sampler \<Rightarrow> real \<Rightarrow> nat \<Rightarrow> int list \<Rightarrow> 'c \<Rightarrow> 'g \<Rightarrow>
   int list \<Rightarrow> ('px, 'c) step list \<Rightarrow> error + (int list \<times> ('px, 'c) step list \<times> 'g)" where
  "decode_loop m eos categorical temperature 0 y cache g tokens calls = Inr (tokens, calls, g)"
| "decode_loop m eos categorical temperature (Suc n) y cache g tokens calls =
     (case language_model m [y] cache of Inl e \<Rightarrow> Inl e
      | Inr (logits, cache') \<Rightarrow>
     (case last_position logits of Inl e \<Rightarrow> Inl e
      | Inr l \<Rightarrow>
     (case sample categorical l temperature g of Inl e \<Rightarrow> Inl e
      | Inr (y', g') \<Rightarrow>
     (case item y' of Inl e \<Rightarrow> Inl e
      | Inr token \<Rightarrow>
         (let calls' = calls @ [\<lparr>invoked = Decode [y] cache, returned_cache = cache',
                                  sampled = y'\<rparr>]
          in if Some token = eos then Inr (tokens, calls', g')
             else decode_loop m eos categorical temperature n y' cache' g'
                    (tokens @ [token]) calls')))))"

text \<open>
  The body of \<^verbatim>\<open>generate_text\<close> up to its \<^verbatim>\<open>return\<close>: the prefill call, the first
  sample, and the loop over \<^verbatim>\<open>range(max_tokens - 1)\<close>, which is empty when
  \<open>max_tokens \<le> 1\<close>. The result is the list \<^verbatim>\<open>tokens\<close>, the calls made and the random
  state.
\<close>

definition generate_run ::
  "ids \<Rightarrow> 'px \<Rightarrow> ('px, 'c) vlm \<Rightarrow> ('img, 'px) processor \<Rightarrow> 'g sampler \<Rightarrow> int \<Rightarrow> real \<Rightarrow> 'g \<Rightarrow>
   error + (int list \<times> ('px, 'c) step list \<times> 'g)" where
  "generate_run input_ids pixel_values m p categorical max_tokens temperature g =
     (case full_model m input_ids pixel_values of Inl e \<Rightarrow> Inl e
      | Inr (logits, cache) \<Rightarrow>
     (case last_position logits of Inl e \<Rightarrow> Inl e
      | Inr l \<Rightarrow>
     (case sample categorical l temperature g of Inl e \<Rightarrow> Inl e
      | Inr (y, g') \<Rightarrow>
     (case item y of Inl e \<Rightarrow> Inl e
      | Inr token \<Rightarrow>
         decode_loop m (eos_token_id p) categorical temperature (nat (max_tokens - 1))
           y cache g' [token]
           [\<lparr>invoked = Prefill input_ids pixel_values, returned_cache = cache,
             sampled = y\<rparr>]))))"

definition generate_text ::
  "ids \<Rightarrow> 'px \<Rightarrow> ('px, 'c) vlm \<Rightarrow> ('img, 'px) processor \<Rightarrow> 'g sampler \<Rightarrow> int \<Rightarrow> real \<Rightarrow> 'g \<Rightarrow>
   error + (string \<times> 'g)" where
  "generate_text input_ids pixel_values m p categorical max_tokens temperature g =
     (case generate_run input_ids pixel_values m p categorical max_tokens temperature g of
        Inl e \<Rightarrow> Inl e
      | Inr (tokens, calls, g') \<Rightarrow> Inr (decode p tokens, g'))"


text \<open>What a logged call returned, read back from the model.\<close>

fun call_result :: "('px, 'c) vlm \<Rightarrow> ('px, 'c) call \<Rightarrow> error + (logits \<times> 'c)" where
  "call_result m (Prefill i px) = full_model m i px"
| "call_result m (Decode i c) = language_model m i c"

text \<open>A logged step is faithful when the logged cache is the one the model returned on
  the logged arguments and the logged array was sampled from the last position of the
  logits returned with it, and holds one token.\<close>

definition faithful :: "('px, 'c) vlm \<Rightarrow> 'g sampler \<Rightarrow> real \<Rightarrow> ('px, 'c) step \<Rightarrow> bool" where
  "faithful m categorical temperature e =
     (\<exists>l ll g0 g1 tok. call_result m (invoked e) = Inr (l, returned_cache e) \<and>
        last_position l = Inr ll \<and>
        sample categorical ll temperature g0 = Inr (sampled e, g1) \<and> sampled e = [tok])"

text \<open>The sampled array holds exactly the end-of-sequence id.\<close>

definition is_eos :: "int option \<Rightarrow> int list \<Rightarrow> bool" where
  "is_eos eos y = (case y of [t] \<Rightarrow> Some t = eos | _ \<Rightarrow> False)"

text \<open>Each decode call of a list of steps takes \<^verbatim>\<open>y[None]\<close> of the array sampled just
  before and the cache returned just before.\<close>

fun chained :: "int list \<Rightarrow> 'c \<Rightarrow> ('px, 'c) step list \<Rightarrow> bool" where
  "chained y c [] = True"
| "chained y c (e # es) =
     (invoked e = Decode [y] c \<and> chained (sampled e) (returned_cache e) es)"

section \<open>Loading the image\<close>

text \<open>
  The collaborators of \<^verbatim>\<open>load_image\<close>: the HTTP client (\<^verbatim>\<open>requests.get\<close>,
  \<^verbatim>\<open>response.raise_for_status\<close>), the file system (\<^verbatim>\<open>Path.is_file\<close>) and the image
  library (\<^verbatim>\<open>Image.open\<close> on a response body and on a path).

  \<^verbatim>\<open>
  def load_image(image_source):
      if image_source.startswith(("http://", "https://")):
          try:
              response = requests.get(image_source, stream=True)
              response.raise_for_status()
              return Image.open(response.raw)
          except Exception as e:
              raise ValueError(
                  f"Failed to load image from URL: {image_source} with error {e}")
      elif Path(image_source).is_file():
          try:
              return Image.open(image_source)
          except IOError as e:
              raise ValueError(f"Failed to load image {image_source} with error: {e}")
      else:
          raise ValueError(
              f"The image {image_source} must be a valid URL or existing file.")
  \<close>
\<close>

record ('resp, 'img) env =
  requests_get :: "string \<Rightarrow> error + 'resp"
  raise_for_status :: "'resp \<Rightarrow> error + unit"
  image_open_raw :: "'resp \<Rightarrow> error + 'img"
  is_file :: "string \<Rightarrow> bool"
  image_open :: "string \<Rightarrow> error + 'img"

definition load_image :: "('resp, 'img) env \<Rightarrow> string \<Rightarrow> error + 'img" where
  "load_image env image_source =
     (if prefix ''http://'' image_source \<or> prefix ''https://'' image_source then
        (case (case requests_get env image_source of Inl e \<Rightarrow> Inl e
               | Inr response \<Rightarrow>
                  (case raise_for_status env response of Inl e \<Rightarrow> Inl e
                   | Inr _ \<Rightarrow> image_open_raw env response)) of
           Inl e \<Rightarrow> Inl (ValueError (''Failed to load image from URL: '' @ image_source @
                                     '' with error '' @ err_str e))
         | Inr img \<Rightarrow> Inr img)
      else if is_file env image_source then
        (case image_open env image_source of
           Inl (IOError s) \<Rightarrow> Inl (ValueError (''Failed to load image '' @ image_source @
                                              '' with error: '' @ s))
         | Inl e \<Rightarrow> Inl e
         | Inr img \<Rightarrow> Inr img)
      else Inl (ValueError (''The image '' @ image_source @
                            '' must be a valid URL or existing file.'')))"

section \<open>Preparing the inputs\<close>

text \<open>
  Python's \<^verbatim>\<open>str.split(sep)\<close>: the text is cut at every occurrence of the separator
  found scanning from the left, occurrences not overlapping; an empty separator raises.
  \<open>split_from sep cur rest\<close> has collected \<open>cur\<close> of the current chunk.
\<close>

fun split_from :: "string \<Rightarrow> string \<Rightarrow> string \<Rightarrow> string list" where
  "split_from sep cur [] = [cur]"
| "split_from sep cur (c # cs) =
     (if prefix sep (c # cs) then cur # split_from sep [] (drop (length sep - 1) cs)
      else split_from sep (cur @ [c]) cs)"

definition str_split :: "string \<Rightarrow> string \<Rightarrow> error + string list" where
  "str_split s sep = (if sep = [] then Inl (ValueError ''empty separator'')
                      else Inr (split_from sep [] s))"

text \<open>Python's \<^verbatim>\<open>str.find\<close> (the first position where the separator occurs, \<open>None\<close>
  for \<open>-1\<close>) and \<^verbatim>\<open>str.count\<close> (occurrences that do not overlap), in which the
  number of placeholders of a prompt is stated.\<close>

fun str_find :: "string \<Rightarrow> string \<Rightarrow> nat option" where
  "str_find [] sep = (if sep = [] then Some 0 else None)"
| "str_find (c # cs) sep =
     (if prefix sep (c # cs) then Some 0 else map_option Suc (str_find cs sep))"

fun str_count :: "string \<Rightarrow> string \<Rightarrow> nat" where
  "str_count [] sep = 0"
| "str_count (c # cs) sep =
     (if prefix sep (c # cs) then Suc (str_count (drop (length sep - 1) cs) sep)
      else str_count cs sep)"

text \<open>
  The image argument is a string still to be loaded or an image already decoded
  (\<^verbatim>\<open>isinstance(image, str)\<close>). The global \<^verbatim>\<open>MODEL_TYPE\<close>, set by \<^verbatim>\<open>load_model\<close>, is
  the explicit parameter \<open>model_type\<close>.

  \<^verbatim>\<open>
  def prepare_inputs(image_processor, processor, image, prompt):
      if isinstance(image, str):
          image = load_image(image)
      if MODEL_TYPE == "nanoLlava":
          text_chunks = [processor(chunk).input_ids for chunk in prompt.split("<image>")]
          input_ids = mx.array([text_chunks[0] + [-200] + text_chunks[1]])
          pixel_values = image_processor.preprocess([image])[0]
          pixel_values = mx.array(np.expand_dims(pixel_values, axis=0))
      else:
          inputs = processor(prompt, image, return_tensors="np")
          pixel_values = mx.array(inputs["pixel_values"])
          input_ids = mx.array(inputs["input_ids"])
      return input_ids, pixel_values
  \<close>
\<close>

datatype 'img image_arg = Source string | Loaded 'img

record ('img, 'raw) image_processor =
  preprocess :: "'img list \<Rightarrow> error + 'raw list"

definition marker :: string where
  "marker = ''<image>''"

definition prepare_inputs ::
  "('resp, 'img) env \<Rightarrow> string \<Rightarrow> ('img, 'raw) image_processor \<Rightarrow>
   ('img, 'raw list) processor \<Rightarrow> 'img image_arg \<Rightarrow> string \<Rightarrow> error + (ids \<times> 'raw list)" where
  "prepare_inputs env model_type image_processor processor image_src prompt =
     (case (case image_src of Source s \<Rightarrow> load_image env s | Loaded i \<Rightarrow> Inr i) of
        Inl e \<Rightarrow> Inl e
      | Inr img \<Rightarrow>
          if model_type = ''nanoLlava'' then
            (case str_split prompt marker of Inl e \<Rightarrow> Inl e
             | Inr chunks \<Rightarrow>
                 (case map (input_ids_of processor) chunks of
                    c0 # c1 # _ \<Rightarrow>
                      (case preprocess image_processor [img] of Inl e \<Rightarrow> Inl e
                       | Inr [] \<Rightarrow> Inl (IndexError ''list index out of range'')
                       | Inr (pv # _) \<Rightarrow> Inr ([c0 @ [-200] @ c1], [pv]))
                  | _ \<Rightarrow> Inl (IndexError ''list index out of range'')))
          else joint_call processor prompt img)"

section \<open>The driver\<close>

text \<open>
  The parsed command line, and \<^verbatim>\<open>main\<close>. \<^verbatim>\<open>load_model\<close> and the decoding of escape
  sequences (\<^verbatim>\<open>codecs.decode(_, "unicode_escape")\<close>) are parameters; the loader returns
  the model type it stores in \<^verbatim>\<open>MODEL_TYPE\<close> as a fourth component. The text printed is
  the result.

  \<^verbatim>\<open>
  if "chat_template" in processor.__dict__.keys():
      prompt = processor.apply_chat_template([{"role": "user", "content": f"{prompt}"}], ...)
  elif "tokenizer" in processor.__dict__.keys():
      prompt = processor.tokenizer.apply_chat_template([...], ...)
  else:
      ValueError("Error: processor does not have 'chat_template' or 'tokenizer' attribute.")
  input_ids, pixel_values = prepare_inputs(image_processor, processor, args.image, prompt)
  generated_text = generate_text(
      input_ids, pixel_values, model, processor, args.max_tokens, args.temp)
  print(generated_text)
  \<close>
\<close>

record args =
  arg_model :: string
  arg_image :: string
  arg_prompt :: string
  arg_max_tokens :: int
  arg_temp :: real

definition main ::
  "('resp, 'img) env \<Rightarrow>
   (string \<Rightarrow> error + (('img, 'raw list) processor \<times> ('raw list, 'c) vlm \<times>
                       ('img, 'raw) image_processor \<times> string)) \<Rightarrow>
   (string \<Rightarrow> error + string) \<Rightarrow> 'g sampler \<Rightarrow> args \<Rightarrow> 'g \<Rightarrow> error + (string \<times> 'g)" where
  "main env load_model unicode_escape categorical a g =
     (case load_model (arg_model a) of Inl e \<Rightarrow> Inl e
      | Inr (processor, m, image_processor, model_type) \<Rightarrow>
     (case unicode_escape (arg_prompt a) of Inl e \<Rightarrow> Inl e
      | Inr prompt \<Rightarrow>
     (case (if has_chat_template processor then apply_chat_template processor prompt
            else if has_tokenizer processor then tokenizer_apply_chat_template processor prompt
            else (let unraised = ValueError
                    ''Error: processor does not have 'chat_template' or 'tokenizer' attribute.''
                  in Inr prompt)) of Inl e \<Rightarrow> Inl e
      | Inr prompt' \<Rightarrow>
     (case prepare_inputs env model_type image_processor processor
             (Source (arg_image a)) prompt' of Inl e \<Rightarrow> Inl e
      | Inr (input_ids, pixel_values) \<Rightarrow>
          generate_text input_ids pixel_values m processor categorical
            (arg_max_tokens a) (arg_temp a) g))))"


section \<open>A small model for the examples\<close>

text \<open>
  A model over a vocabulary of three tokens whose prefill logits favour token 2, and
  whose decode logits favour token 0 after token 2, token 1 after token 0 (a tie of the
  scores of tokens 1 and 2) and token 2 otherwise. Its cache counts the decode calls.
\<close>

definition demo_model :: "(nat list, nat) vlm" where
  "demo_model =
     \<lparr>full_model = (\<lambda>i px. Inr ([[[0, 1, 0], [0, 0, 1]]], 0)),
      language_model = (\<lambda>i c. Inr ([[if i = [[2]] then [3, 0, 0]
                                         else if i = [[0]] then [0, 5, 5] else [0, 0, 1]]], Suc c))\<rparr>"

definition demo_processor :: "int option \<Rightarrow> (string, nat list) processor" where
  "demo_processor eos =
     \<lparr>has_chat_template = False, has_tokenizer = False,
      apply_chat_template = (\<lambda>s. Inr s), tokenizer_apply_chat_template = (\<lambda>s. Inr s),
      input_ids_of = (\<lambda>s. map (\<lambda>c. int (of_char c)) s),
      joint_call = (\<lambda>s img. Inr ([map (\<lambda>c. int (of_char c)) s], [length img])),
      eos_token_id = eos,
      decode = (\<lambda>ts. map (\<lambda>t. char_of t) ts)\<rparr>"

definition demo_sampler :: "nat sampler" where
  "demo_sampler = (\<lambda>l g. Inr (map (\<lambda>row. 0) l, Suc g))"


text \<open>
  An environment with one reachable image URL, one reachable URL that is not an image,
  one image file and one text file; an image preprocessor; a loader that returns the
  example model under the model type \<^verbatim>\<open>nanoLlava\<close>; and a command line.
\<close>

definition demo_env :: "(string, string) env" where
  "demo_env =
     \<lparr>requests_get = (\<lambda>u. if u = ''http://host/cat.jpg'' then Inr ''JPEG''
                           else if u = ''http://host/page.html'' then Inr ''HTML''
                           else Inl (OtherError ''connection refused'')),
      raise_for_status = (\<lambda>r. Inr ()),
      image_open_raw = (\<lambda>r. if r = ''JPEG'' then Inr ''cat''
                             else Inl (IOError ''cannot identify image file'')),
      is_file = (\<lambda>p. p = ''cat.png'' \<or> p = ''notes.txt''),
      image_open = (\<lambda>p. if p = ''cat.png'' then Inr ''cat''
                         else Inl (IOError ''cannot identify image file''))\<rparr>"

definition demo_image_processor :: "(string, nat) image_processor" where
  "demo_image_processor = \<lparr>preprocess = (\<lambda>imgs. Inr (map length imgs))\<rparr>"

definition demo_load_model ::
  "string \<Rightarrow> error + ((string, nat list) processor \<times> (nat list, nat) vlm \<times>
                     (string, nat) image_processor \<times> string)" where
  "demo_load_model path =
     Inr (demo_processor (Some 1), demo_model, demo_image_processor, ''nanoLlava'')"

definition demo_args :: args where
  "demo_args = \<lparr>arg_model = ''qnguyen3/nanoLLaVA'', arg_image = ''cat.png'',
                 arg_prompt = ''<image>What are these?'', arg_max_tokens = 5, arg_temp = 0\<rparr>"

section \<open>Properties of the sampling rule\<close>

lemma argmax_scan_inv:
  assumes "length pre = i" "best < i" "pre ! best = v"
    "\<forall>j<i. pre ! j \<le> v" "\<forall>j<best. pre ! j < v"
  shows "argmax_scan xs i best v < length (pre @ xs) \<and>
         (\<forall>j<length (pre @ xs). (pre @ xs) ! j \<le> (pre @ xs) ! argmax_scan xs i best v) \<and>
         (\<forall>j<argmax_scan xs i best v. (pre @ xs) ! j < (pre @ xs) ! argmax_scan xs i best v)"
  using assms
proof (induction xs arbitrary: pre i best v)
  case Nil
  then show ?case by simp
next
  case (Cons x xs)
  show ?case
  proof (cases "v < x")
    case True
    have "argmax_scan xs (Suc i) i x < length ((pre @ [x]) @ xs) \<and>
         (\<forall>j<length ((pre @ [x]) @ xs). ((pre @ [x]) @ xs) ! j \<le> ((pre @ [x]) @ xs) ! argmax_scan xs (Suc i) i x) \<and>
         (\<forall>j<argmax_scan xs (Suc i) i x. ((pre @ [x]) @ xs) ! j < ((pre @ [x]) @ xs) ! argmax_scan xs (Suc i) i x)"
    proof (rule Cons.IH)
      show "length (pre @ [x]) = Suc i" using Cons.prems by simp
      show "i < Suc i" by simp
      show "(pre @ [x]) ! i = x" using Cons.prems by (auto simp: nth_append)
      show "\<forall>j<Suc i. (pre @ [x]) ! j \<le> x"
        using Cons.prems True by (auto simp: nth_append less_Suc_eq)
      show "\<forall>j<i. (pre @ [x]) ! j < x"
        using Cons.prems True by (auto simp: nth_append)
    qed
    with True show ?thesis by simp
  next
    case False
    have "argmax_scan xs (Suc i) best v < length ((pre @ [x]) @ xs) \<and>
         (\<forall>j<length ((pre @ [x]) @ xs). ((pre @ [x]) @ xs) ! j \<le> ((pre @ [x]) @ xs) ! argmax_scan xs (Suc i) best v) \<and>
         (\<forall>j<argmax_scan xs (Suc i) best v. ((pre @ [x]) @ xs) ! j < ((pre @ [x]) @ xs) ! argmax_scan xs (Suc i) best v)"
    proof (rule Cons.IH)
      show "length (pre @ [x]) = Suc i" using Cons.prems by simp
      show "best < Suc i" using Cons.prems by simp
      show "(pre @ [x]) ! best = v" using Cons.prems by (simp add: nth_append)
      show "\<forall>j<Suc i. (pre @ [x]) ! j \<le> v"
        using Cons.prems False by (auto simp: nth_append less_Suc_eq)
      show "\<forall>j<best. (pre @ [x]) ! j < v"
        using Cons.prems by (auto simp: nth_append)
    qed
    with False show ?thesis by simp
  qed
qed

lemma argmax_first_max:
  assumes "xs \<noteq> []"
  shows "\<exists>i<length xs. argmax xs = Inr (int i) \<and> (\<forall>j<length xs. xs ! j \<le> xs ! i) \<and> (\<forall>j<i. xs ! j < xs ! i)"
proof -
  from assms obtain x rest where xs: "xs = x # rest" by (cases xs) auto
  have "argmax_scan rest 1 0 x < length ([x] @ rest) \<and>
         (\<forall>j<length ([x] @ rest). ([x] @ rest) ! j \<le> ([x] @ rest) ! argmax_scan rest 1 0 x) \<and>
         (\<forall>j<argmax_scan rest 1 0 x. ([x] @ rest) ! j < ([x] @ rest) ! argmax_scan rest 1 0 x)"
    by (rule argmax_scan_inv) simp_all
  then show ?thesis unfolding xs argmax_def by auto
qed


section \<open>Properties of the generation loop\<close>

lemma item_Inr: "item y = Inr t \<longleftrightarrow> y = [t]"
  by (auto simp: item_def split: list.splits)

lemma decode_loop_inv:
  fixes m :: "('px, 'c) vlm"
  assumes "decode_loop m eos cat t n y cache g tokens calls = Inr (tokens', calls', g')"
  shows "\<exists>new. calls' = calls @ new \<and> length new \<le> n \<and> chained y cache new \<and>
           (\<forall>e\<in>set new. faithful m cat t e) \<and>
           tokens' = tokens @ concat (map sampled (filter (\<lambda>e. \<not> is_eos eos (sampled e)) new)) \<and>
           (\<forall>k. Suc k < length new \<longrightarrow> \<not> is_eos eos (sampled (new ! k)))"
  using assms
proof (induction n arbitrary: y cache g tokens calls)
  case 0
  then show ?case by simp
next
  case (Suc n)
  from Suc.prems obtain lg cache1 where lm: "language_model m [y] cache = Inr (lg, cache1)"
    by (auto split: sum.splits)
  from Suc.prems lm obtain l where lp: "last_position lg = Inr l"
    by (auto split: sum.splits)
  from Suc.prems lm lp obtain y1 g1 where sm: "sample cat l t g = Inr (y1, g1)"
    by (auto split: sum.splits)
  from Suc.prems lm lp sm obtain token where it: "item y1 = Inr token"
    by (auto split: sum.splits)
  then have y1: "y1 = [token]" by (simp add: item_Inr)
  define e :: "('px, 'c) step" where "e = \<lparr>invoked = Decode [y] cache, returned_cache = cache1, sampled = y1\<rparr>"
  have fe: "faithful m cat t e"
    unfolding faithful_def e_def using lm lp sm y1 by auto
  show ?case
  proof (cases "Some token = eos")
    case True
    with Suc.prems lm lp sm it have "tokens' = tokens" "calls' = calls @ [e]"
      by (simp_all add: e_def)
    moreover have "is_eos eos (sampled e)" using True by (simp add: e_def y1 is_eos_def)
    ultimately show ?thesis using fe
      by (intro exI [of _ "[e]"]) (simp add: e_def)
  next
    case False
    with Suc.prems lm lp sm it
    have "decode_loop m eos cat t n y1 cache1 g1 (tokens @ [token]) (calls @ [e]) = Inr (tokens', calls', g')"
      by (simp add: e_def)
    from Suc.IH [OF this] obtain new where new: "calls' = (calls @ [e]) @ new" "length new \<le> n"
      "chained y1 cache1 new" "\<forall>e\<in>set new. faithful m cat t e"
      "tokens' = (tokens @ [token]) @ concat (map sampled (filter (\<lambda>e. \<not> is_eos eos (sampled e)) new))"
      "\<forall>k. Suc k < length new \<longrightarrow> \<not> is_eos eos (sampled (new ! k))" by blast
    have ne: "\<not> is_eos eos (sampled e)" using False by (simp add: e_def y1 is_eos_def)
    have "\<forall>k. Suc k < length (e # new) \<longrightarrow> \<not> is_eos eos (sampled ((e # new) ! k))"
      using new(6) ne by (auto simp: nth_Cons split: nat.splits)
    moreover have "chained y cache (e # new)" using new(3) by (simp add: e_def)
    moreover have "tokens' = tokens @ concat (map sampled (filter (\<lambda>e. \<not> is_eos eos (sampled e)) (e # new)))"
      using new(5) ne by (simp add: e_def y1)
    ultimately show ?thesis using new(1,2,4) fe
      by (intro exI [of _ "e # new"]) simp
  qed
qed

lemma generate_run_inv:
  fixes m :: "('px, 'c) vlm"
  assumes "generate_run input_ids pixel_values m p cat max_tokens t g = Inr (tokens, calls, g')"
  shows "\<exists>e new tok. calls = e # new \<and> invoked e = Prefill input_ids pixel_values \<and>
           sampled e = [tok] \<and> faithful m cat t e \<and>
           length new \<le> nat (max_tokens - 1) \<and> chained [tok] (returned_cache e) new \<and>
           (\<forall>e\<in>set new. faithful m cat t e) \<and>
           tokens = tok # concat (map sampled
                      (filter (\<lambda>e. \<not> is_eos (eos_token_id p) (sampled e)) new)) \<and>
           (\<forall>k. Suc k < length new \<longrightarrow> \<not> is_eos (eos_token_id p) (sampled (new ! k)))"
proof -
  from assms obtain lg cache where fm: "full_model m input_ids pixel_values = Inr (lg, cache)"
    by (auto simp: generate_run_def split: sum.splits)
  from assms fm obtain l where lp: "last_position lg = Inr l"
    by (auto simp: generate_run_def split: sum.splits)
  from assms fm lp obtain y g1 where sm: "sample cat l t g = Inr (y, g1)"
    by (auto simp: generate_run_def split: sum.splits)
  from assms fm lp sm obtain tok where it: "item y = Inr tok"
    by (auto simp: generate_run_def split: sum.splits)
  then have y: "y = [tok]" by (simp add: item_Inr)
  define e :: "('px, 'c) step" where
    "e = \<lparr>invoked = Prefill input_ids pixel_values, returned_cache = cache, sampled = y\<rparr>"
  have fe: "faithful m cat t e"
    unfolding faithful_def e_def using fm lp sm y by auto
  from assms fm lp sm it
  have "decode_loop m (eos_token_id p) cat t (nat (max_tokens - 1)) y cache g1 [tok] [e]
          = Inr (tokens, calls, g')"
    by (simp add: generate_run_def e_def)
  from decode_loop_inv [OF this] obtain new where new: "calls = [e] @ new"
    "length new \<le> nat (max_tokens - 1)" "chained y cache new"
    "\<forall>e\<in>set new. faithful m cat t e"
    "tokens = [tok] @ concat (map sampled (filter (\<lambda>e. \<not> is_eos (eos_token_id p) (sampled e)) new))"
    "\<forall>k. Suc k < length new \<longrightarrow> \<not> is_eos (eos_token_id p) (sampled (new ! k))" by blast
  show ?thesis
    using new fe by (intro exI [of _ e] exI [of _ new] exI [of _ tok]) (simp add: e_def y)
qed

lemma faithful_single: "faithful m cat t e \<Longrightarrow> \<exists>tok. sampled e = [tok]"
  by (auto simp: faithful_def)

lemma kept_length:
  assumes "\<forall>e\<in>set new. \<exists>tok. sampled e = [tok]"
  shows "length (concat (map sampled (filter P new))) = length (filter P new)"
  using assms by (induction new) auto

lemma kept_not_eos:
  assumes "\<forall>e\<in>set new. \<exists>tok. sampled e = [tok]"
  shows "\<forall>t\<in>set (concat (map sampled (filter (\<lambda>e. \<not> is_eos eos (sampled e)) new))). Some t \<noteq> eos"
  using assms by (induction new) (auto simp: is_eos_def)

lemma last_position_single: "row \<noteq> [] \<Longrightarrow> last_position [row] = Inr [last row]"
  by (simp add: last_position_def)

lemma sample_single:
  assumes "v \<noteq> []"
    and "temperature \<noteq> 0 \<longrightarrow> (\<forall>l g. length l = 1 \<longrightarrow> (\<exists>tok g'. cat l g = Inr ([tok], g')))"
  shows "\<exists>tok g'. sample cat [v] temperature g = Inr ([tok], g')"
proof (cases "temperature = 0")
  case True
  from assms(1) obtain x r where "v = x # r" by (cases v) auto
  then show ?thesis using True by (simp add: sample_def argmax_def)
next
  case False
  with assms(2) have "\<exists>tok g'. cat [map (\<lambda>x. x * (1 / temperature)) v] g = Inr ([tok], g')"
    by simp
  with False show ?thesis by (simp add: sample_def)
qed

lemma decode_loop_total:
  assumes lm: "\<forall>i c. \<exists>row c'. language_model m i c = Inr ([row], c') \<and> row \<noteq> [] \<and> last row \<noteq> []"
    and cat: "temperature \<noteq> 0 \<longrightarrow> (\<forall>l g. length l = 1 \<longrightarrow> (\<exists>tok g'. cat l g = Inr ([tok], g')))"
  shows "\<exists>r. decode_loop m eos cat temperature n y cache g tokens calls = Inr r"
proof (induction n arbitrary: y cache g tokens calls)
  case 0
  show ?case by simp
next
  case (Suc n)
  from lm obtain row c' where r: "language_model m [y] cache = Inr ([row], c')" "row \<noteq> []"
    "last row \<noteq> []" by blast
  from sample_single [OF r(3) cat] obtain tok g' where
    s: "sample cat [last row] temperature g = Inr ([tok], g')" by blast
  show ?case
    using r s Suc.IH [of "[tok]" c' g' "tokens @ [tok]"]
    by (cases "Some tok = eos") (simp_all add: last_position_single item_def Let_def)
qed

lemma generate_run_total:
  assumes fm: "\<exists>row c. full_model m input_ids pixel_values = Inr ([row], c) \<and> row \<noteq> [] \<and> last row \<noteq> []"
    and lm: "\<forall>i c. \<exists>row c'. language_model m i c = Inr ([row], c') \<and> row \<noteq> [] \<and> last row \<noteq> []"
    and cat: "temperature \<noteq> 0 \<longrightarrow> (\<forall>l g. length l = 1 \<longrightarrow> (\<exists>tok g'. cat l g = Inr ([tok], g')))"
  shows "\<exists>r. generate_run input_ids pixel_values m p cat max_tokens temperature g = Inr r"
proof -
  from fm obtain row c where r: "full_model m input_ids pixel_values = Inr ([row], c)"
    "row \<noteq> []" "last row \<noteq> []" by blast
  from sample_single [OF r(3) cat] obtain tok g' where
    s: "sample cat [last row] temperature g = Inr ([tok], g')" by blast
  show ?thesis
    using r s decode_loop_total [OF lm cat]
    by (simp add: generate_run_def last_position_single item_def)
qed


lemma generate_text_of_run:
  "generate_run input_ids pixel_values m p cat max_tokens t g = Inr (tokens, calls, g') \<Longrightarrow>
   generate_text input_ids pixel_values m p cat max_tokens t g = Inr (decode p tokens, g')"
  by (simp add: generate_text_def)

lemma generate_run_prefill_only:
  assumes "max_tokens \<le> 1" "full_model m input_ids pixel_values = Inr (lg, c)"
    "last_position lg = Inr l" "sample cat l t g = Inr ([tok], g1)"
  shows "generate_run input_ids pixel_values m p cat max_tokens t g =
           Inr ([tok], [\<lparr>invoked = Prefill input_ids pixel_values, returned_cache = c,
                          sampled = [tok]\<rparr>], g1)"
  using assms by (simp add: generate_run_def item_def)

lemma chained_nth:
  "chained (sampled e) (returned_cache e) es \<Longrightarrow> Suc k < length (e # es) \<Longrightarrow>
   invoked ((e # es) ! Suc k) = Decode [sampled ((e # es) ! k)] (returned_cache ((e # es) ! k))"
proof (induction es arbitrary: e k)
  case Nil
  then show ?case by simp
next
  case (Cons a es)
  show ?case
  proof (cases k)
    case 0
    with Cons.prems show ?thesis by simp
  next
    case (Suc j)
    from Cons.prems have "chained (sampled a) (returned_cache a) es" by simp
    from Cons.IH [OF this, of j] Cons.prems Suc show ?thesis by simp
  qed
qed

lemmas demo_defs = demo_model_def demo_processor_def demo_sampler_def generate_run_def
  generate_text_def last_position_def sample_def argmax_def item_def


section \<open>The claims about the generation loop\<close>

text \<open>
  C1. For every positive \<open>max_tokens\<close>, a run of \<^verbatim>\<open>generate_text\<close> that returns has made
  the prefill call first and at most \<open>max_tokens - 1\<close> decode calls, and its token list
  holds between 1 and \<open>max_tokens\<close> tokens; for \<open>max_tokens = 1\<close> there is no decode
  call and exactly one token. The text returned is the decoding of that list. The run
  does return whenever the model's calls succeed with one batch row of non-empty logits
  (and, at a temperature other than 0, the categorical draw returns one index).
\<close>

theorem generate_text_token_bounds:
  fixes m :: "('px, 'c) vlm"
  assumes "0 < max_tokens"
  shows "(\<forall>tokens calls g'.
            generate_run input_ids pixel_values m p cat max_tokens t g = Inr (tokens, calls, g') \<longrightarrow>
            (\<exists>first decodes. calls = first # decodes \<and>
               invoked first = Prefill input_ids pixel_values \<and>
               int (length decodes) \<le> max_tokens - 1 \<and>
               1 \<le> length tokens \<and> int (length tokens) \<le> max_tokens \<and>
               (max_tokens = 1 \<longrightarrow> decodes = [] \<and> length tokens = 1) \<and>
               generate_text input_ids pixel_values m p cat max_tokens t g
                 = Inr (decode p tokens, g'))) \<and>
         ((\<exists>row c. full_model m input_ids pixel_values = Inr ([row], c) \<and> row \<noteq> [] \<and> last row \<noteq> []) \<and>
          (\<forall>i c. \<exists>row c'. language_model m i c = Inr ([row], c') \<and> row \<noteq> [] \<and> last row \<noteq> []) \<and>
          (t \<noteq> 0 \<longrightarrow> (\<forall>l g. length l = 1 \<longrightarrow> (\<exists>tok g'. cat l g = Inr ([tok], g')))) \<longrightarrow>
          (\<exists>tokens calls g'.
             generate_run input_ids pixel_values m p cat max_tokens t g = Inr (tokens, calls, g')))"
proof (intro conjI allI impI)
  fix tokens calls g'
  assume run: "generate_run input_ids pixel_values m p cat max_tokens t g = Inr (tokens, calls, g')"
  from generate_run_inv [OF run] obtain e new tok where inv:
    "calls = e # new" "invoked e = Prefill input_ids pixel_values"
    "length new \<le> nat (max_tokens - 1)" "\<forall>e\<in>set new. faithful m cat t e"
    "tokens = tok # concat (map sampled (filter (\<lambda>e. \<not> is_eos (eos_token_id p) (sampled e)) new))"
    by blast
  from inv(4) have single: "\<forall>e\<in>set new. \<exists>tok. sampled e = [tok]"
    by (blast dest: faithful_single)
  have "length tokens = Suc (length (filter (\<lambda>e. \<not> is_eos (eos_token_id p) (sampled e)) new))"
    using inv(5) kept_length [OF single] by simp
  moreover have "length (filter (\<lambda>e. \<not> is_eos (eos_token_id p) (sampled e)) new) \<le> length new"
    by simp
  ultimately have len: "1 \<le> length tokens" "length tokens \<le> Suc (length new)" by simp_all
  from inv(3) assms have dn: "int (length new) \<le> max_tokens - 1" by simp
  with len have "int (length tokens) \<le> max_tokens" by simp
  moreover have "max_tokens = 1 \<longrightarrow> new = [] \<and> length tokens = 1" using dn len by auto
  ultimately show "\<exists>first decodes. calls = first # decodes \<and>
               invoked first = Prefill input_ids pixel_values \<and>
               int (length decodes) \<le> max_tokens - 1 \<and>
               1 \<le> length tokens \<and> int (length tokens) \<le> max_tokens \<and>
               (max_tokens = 1 \<longrightarrow> decodes = [] \<and> length tokens = 1) \<and>
               generate_text input_ids pixel_values m p cat max_tokens t g
                 = Inr (decode p tokens, g')"
    using inv(1,2) dn len(1) generate_text_of_run [OF run] by blast
next
  assume h: "(\<exists>row c. full_model m input_ids pixel_values = Inr ([row], c) \<and> row \<noteq> [] \<and> last row \<noteq> []) \<and>
          (\<forall>i c. \<exists>row c'. language_model m i c = Inr ([row], c') \<and> row \<noteq> [] \<and> last row \<noteq> []) \<and>
          (t \<noteq> 0 \<longrightarrow> (\<forall>l g. length l = 1 \<longrightarrow> (\<exists>tok g'. cat l g = Inr ([tok], g'))))"
  from h have a: "\<exists>row c. full_model m input_ids pixel_values = Inr ([row], c) \<and> row \<noteq> [] \<and> last row \<noteq> []"
    and b: "\<forall>i c. \<exists>row c'. language_model m i c = Inr ([row], c') \<and> row \<noteq> [] \<and> last row \<noteq> []"
    and c: "t \<noteq> 0 \<longrightarrow> (\<forall>l g. length l = 1 \<longrightarrow> (\<exists>tok g'. cat l g = Inr ([tok], g')))"
    by blast+
  from generate_run_total [OF a b c, of p max_tokens g]
  show "\<exists>tokens calls g'.
             generate_run input_ids pixel_values m p cat max_tokens t g = Inr (tokens, calls, g')"
    by auto
qed

theorem generate_text_token_bounds_witness:
  "(0::int) < 3 \<and>
   generate_run [[7]] [0] demo_model (demo_processor None) demo_sampler 3 0 0
     = Inr ([2, 0, 1],
            [\<lparr>invoked = Prefill [[7]] [0], returned_cache = 0, sampled = [2]\<rparr>,
             \<lparr>invoked = Decode [[2]] 0, returned_cache = 1, sampled = [0]\<rparr>,
             \<lparr>invoked = Decode [[0]] 1, returned_cache = 2, sampled = [1]\<rparr>], 0) \<and>
   int (length [2::int, 0, 1]) \<le> 3"
  using generate_text_token_bounds [of 3 "[[7]]" "[0]" demo_model "demo_processor None" demo_sampler 0 0]
  by (simp add: demo_defs numeral_2_eq_2)



text \<open>
  C2. The claim is that an end-of-sequence token sampled at the prefill step ends the
  generation with a single token and the decode loop is not entered. The source
  compares the token with the end-of-sequence id only inside the loop; the token of the
  prefill step is appended unchecked and the loop runs. With end-of-sequence id 2, the
  example model samples 2 at the prefill step, and with \<open>max_tokens = 3\<close> the run makes
  two decode calls and returns three tokens.
\<close>

theorem eos_at_prefill_enters_loop:
  "generate_run [[7]] [0] demo_model (demo_processor (Some 2)) demo_sampler 3 0 0
     = Inr ([2, 0, 1],
            [\<lparr>invoked = Prefill [[7]] [0], returned_cache = 0, sampled = [2]\<rparr>,
             \<lparr>invoked = Decode [[2]] 0, returned_cache = 1, sampled = [0]\<rparr>,
             \<lparr>invoked = Decode [[0]] 1, returned_cache = 2, sampled = [1]\<rparr>], 0)"
  by (simp add: demo_defs numeral_2_eq_2)

text \<open>
  C3. In a run that returns, a decode step whose sampled token is the end-of-sequence id
  is the last model call of the run; the token list is the prefill token followed by
  exactly the tokens sampled at the decode steps that were not the end-of-sequence id,
  in order, so that no token after the first is the end-of-sequence id; and the text
  returned is the decoding of that list.
\<close>

theorem decode_loop_stops_at_eos:
  fixes m :: "('px, 'c) vlm"
  assumes run: "generate_run input_ids pixel_values m p cat max_tokens t g = Inr (tokens, calls, g')"
  shows "\<exists>first decodes tok. calls = first # decodes \<and> sampled first = [tok] \<and>
           (\<forall>k<length decodes. is_eos (eos_token_id p) (sampled (decodes ! k)) \<longrightarrow>
                Suc k = length decodes) \<and>
           tokens = tok # concat (map sampled
                      (filter (\<lambda>e. \<not> is_eos (eos_token_id p) (sampled e)) decodes)) \<and>
           (\<forall>tk\<in>set (tl tokens). Some tk \<noteq> eos_token_id p) \<and>
           generate_text input_ids pixel_values m p cat max_tokens t g = Inr (decode p tokens, g')"
proof -
  from generate_run_inv [OF run] obtain e new tok where inv:
    "calls = e # new" "sampled e = [tok]" "\<forall>e\<in>set new. faithful m cat t e"
    "tokens = tok # concat (map sampled (filter (\<lambda>e. \<not> is_eos (eos_token_id p) (sampled e)) new))"
    "\<forall>k. Suc k < length new \<longrightarrow> \<not> is_eos (eos_token_id p) (sampled (new ! k))"
    by blast
  from inv(3) have single: "\<forall>e\<in>set new. \<exists>tok. sampled e = [tok]"
    by (blast dest: faithful_single)
  have last: "\<forall>k<length new. is_eos (eos_token_id p) (sampled (new ! k)) \<longrightarrow> Suc k = length new"
  proof (intro allI impI)
    fix k assume k: "k < length new" "is_eos (eos_token_id p) (sampled (new ! k))"
    with inv(5) have "\<not> Suc k < length new" by blast
    with k(1) show "Suc k = length new" by simp
  qed
  have "\<forall>tk\<in>set (tl tokens). Some tk \<noteq> eos_token_id p"
    using kept_not_eos [OF single, of "eos_token_id p"] inv(4) by simp
  with inv(1,2,4) last generate_text_of_run [OF run] show ?thesis by blast
qed

theorem decode_loop_stops_at_eos_witness:
  "generate_run [[7]] [0] demo_model (demo_processor (Some 1)) demo_sampler 10 0 0
     = Inr ([2, 0],
            [\<lparr>invoked = Prefill [[7]] [0], returned_cache = 0, sampled = [2]\<rparr>,
             \<lparr>invoked = Decode [[2]] 0, returned_cache = 1, sampled = [0]\<rparr>,
             \<lparr>invoked = Decode [[0]] 1, returned_cache = 2, sampled = [1]\<rparr>], 0) \<and>
   is_eos (eos_token_id (demo_processor (Some 1))) [1] \<and>
   generate_text [[7]] [0] demo_model (demo_processor (Some 1)) demo_sampler 10 0 0
     = Inr (decode (demo_processor (Some 1)) [2, 0], 0)"
proof -
  have run: "generate_run [[7]] [0] demo_model (demo_processor (Some 1)) demo_sampler 10 0 0
     = Inr ([2, 0],
            [\<lparr>invoked = Prefill [[7]] [0], returned_cache = 0, sampled = [2]\<rparr>,
             \<lparr>invoked = Decode [[2]] 0, returned_cache = 1, sampled = [0]\<rparr>,
             \<lparr>invoked = Decode [[0]] 1, returned_cache = 2, sampled = [1]\<rparr>], 0)"
    by (simp add: demo_model_def demo_processor_def generate_run_def last_position_def
          sample_def argmax_def item_def eval_nat_numeral)
  from decode_loop_stops_at_eos [OF run] run show ?thesis
    by (simp add: is_eos_def demo_processor_def)
qed

text \<open>
  C5. In a run that returns, the first model call is the prefill call on the prompt, and
  every later call is a decode call whose ids are the one token sampled from the
  preceding call, as a batch of one sequence of length one, and whose cache is the cache
  that preceding call returned. Every logged step is faithful: its cache is the one the
  model returned on the logged arguments.
\<close>

theorem decode_calls_thread_cache:
  fixes m :: "('px, 'c) vlm"
  assumes run: "generate_run input_ids pixel_values m p cat max_tokens t g = Inr (tokens, calls, g')"
  shows "calls \<noteq> [] \<and> invoked (calls ! 0) = Prefill input_ids pixel_values \<and>
         (\<forall>k. Suc k < length calls \<longrightarrow>
            (\<exists>tok. sampled (calls ! k) = [tok] \<and>
               invoked (calls ! Suc k) = Decode [[tok]] (returned_cache (calls ! k)))) \<and>
         (\<forall>k<length calls. faithful m cat t (calls ! k))"
proof -
  from generate_run_inv [OF run] obtain e new tok where inv:
    "calls = e # new" "invoked e = Prefill input_ids pixel_values" "sampled e = [tok]"
    "faithful m cat t e" "chained [tok] (returned_cache e) new"
    "\<forall>e\<in>set new. faithful m cat t e"
    by blast
  have all: "\<forall>e\<in>set calls. faithful m cat t e" using inv(1,4,6) by simp
  then have f: "\<forall>k<length calls. faithful m cat t (calls ! k)" by simp
  have "\<forall>k. Suc k < length calls \<longrightarrow>
            (\<exists>tok. sampled (calls ! k) = [tok] \<and>
               invoked (calls ! Suc k) = Decode [[tok]] (returned_cache (calls ! k)))"
  proof (intro allI impI)
    fix k assume k: "Suc k < length calls"
    from inv(5) inv(3) have "chained (sampled e) (returned_cache e) new" by simp
    from chained_nth [OF this, of k] k inv(1)
    have c: "invoked (calls ! Suc k) = Decode [sampled (calls ! k)] (returned_cache (calls ! k))"
      by simp
    from f k have "faithful m cat t (calls ! k)" by simp
    then obtain tk where "sampled (calls ! k) = [tk]" by (blast dest: faithful_single)
    with c show "\<exists>tok. sampled (calls ! k) = [tok] \<and>
               invoked (calls ! Suc k) = Decode [[tok]] (returned_cache (calls ! k))" by simp
  qed
  with f inv(1,2) show ?thesis by simp
qed

theorem decode_calls_thread_cache_witness:
  "generate_run [[7]] [0] demo_model (demo_processor None) demo_sampler 4 0 0
     = Inr ([2, 0, 1, 2],
            [\<lparr>invoked = Prefill [[7]] [0], returned_cache = 0, sampled = [2]\<rparr>,
             \<lparr>invoked = Decode [[2]] 0, returned_cache = 1, sampled = [0]\<rparr>,
             \<lparr>invoked = Decode [[0]] 1, returned_cache = 2, sampled = [1]\<rparr>,
             \<lparr>invoked = Decode [[1]] 2, returned_cache = 3, sampled = [2]\<rparr>], 0) \<and>
   call_result demo_model (Decode [[1]] 2) = Inr ([[[0, 0, 1]]], 3)"
proof -
  have run: "generate_run [[7]] [0] demo_model (demo_processor None) demo_sampler 4 0 0
     = Inr ([2, 0, 1, 2],
            [\<lparr>invoked = Prefill [[7]] [0], returned_cache = 0, sampled = [2]\<rparr>,
             \<lparr>invoked = Decode [[2]] 0, returned_cache = 1, sampled = [0]\<rparr>,
             \<lparr>invoked = Decode [[0]] 1, returned_cache = 2, sampled = [1]\<rparr>,
             \<lparr>invoked = Decode [[1]] 2, returned_cache = 3, sampled = [2]\<rparr>], 0)"
    by (simp add: demo_model_def demo_processor_def generate_run_def last_position_def
          sample_def argmax_def item_def eval_nat_numeral)
  from decode_calls_thread_cache [OF run] run show ?thesis
    by (simp add: demo_model_def)
qed

text \<open>
  C10. For \<open>max_tokens \<le> 0\<close> a run that returns has made the prefill call and no decode
  call, and its token list holds the one token sampled at the prefill step, which is
  more than the budget; the run returns so whenever the prefill call and the sampling
  from its logits succeed.
\<close>

theorem generate_text_nonpositive_budget:
  fixes m :: "('px, 'c) vlm"
  assumes "max_tokens \<le> 0"
  shows "(\<forall>tokens calls g'.
            generate_run input_ids pixel_values m p cat max_tokens t g = Inr (tokens, calls, g') \<longrightarrow>
            (\<exists>first tok. calls = [first] \<and> invoked first = Prefill input_ids pixel_values \<and>
               sampled first = [tok] \<and> tokens = [tok] \<and> max_tokens < int (length tokens) \<and>
               generate_text input_ids pixel_values m p cat max_tokens t g
                 = Inr (decode p [tok], g'))) \<and>
         (\<forall>lg c l tok g1.
            full_model m input_ids pixel_values = Inr (lg, c) \<and> last_position lg = Inr l \<and>
            sample cat l t g = Inr ([tok], g1) \<longrightarrow>
            generate_run input_ids pixel_values m p cat max_tokens t g
              = Inr ([tok], [\<lparr>invoked = Prefill input_ids pixel_values, returned_cache = c,
                              sampled = [tok]\<rparr>], g1))"
proof (intro conjI allI impI)
  fix tokens calls g'
  assume run: "generate_run input_ids pixel_values m p cat max_tokens t g = Inr (tokens, calls, g')"
  from generate_run_inv [OF run] obtain e new tok where inv:
    "calls = e # new" "invoked e = Prefill input_ids pixel_values" "sampled e = [tok]"
    "length new \<le> nat (max_tokens - 1)"
    "tokens = tok # concat (map sampled (filter (\<lambda>e. \<not> is_eos (eos_token_id p) (sampled e)) new))"
    by blast
  from inv(4) assms have "new = []" by simp
  with inv assms generate_text_of_run [OF run]
  show "\<exists>first tok. calls = [first] \<and> invoked first = Prefill input_ids pixel_values \<and>
               sampled first = [tok] \<and> tokens = [tok] \<and> max_tokens < int (length tokens) \<and>
               generate_text input_ids pixel_values m p cat max_tokens t g
                 = Inr (decode p [tok], g')"
    by simp
next
  fix lg c l tok g1
  assume "full_model m input_ids pixel_values = Inr (lg, c) \<and> last_position lg = Inr l \<and>
            sample cat l t g = Inr ([tok], g1)"
  then show "generate_run input_ids pixel_values m p cat max_tokens t g
              = Inr ([tok], [\<lparr>invoked = Prefill input_ids pixel_values, returned_cache = c,
                              sampled = [tok]\<rparr>], g1)"
    using assms generate_run_prefill_only [of max_tokens m input_ids pixel_values lg c l cat t g tok g1 p]
    by simp
qed

theorem generate_text_nonpositive_budget_witness:
  "(-5::int) \<le> 0 \<and>
   generate_run [[7]] [0] demo_model (demo_processor (Some 1)) demo_sampler (-5) 0 0
     = Inr ([2], [\<lparr>invoked = Prefill [[7]] [0], returned_cache = 0, sampled = [2]\<rparr>], 0) \<and>
   generate_text [[7]] [0] demo_model (demo_processor (Some 1)) demo_sampler (-5) 0 0
     = Inr (decode (demo_processor (Some 1)) [2], 0)"
  using generate_text_nonpositive_budget [of "-5" "[[7]]" "[0]" demo_model
          "demo_processor (Some 1)" demo_sampler 0 0]
  by (simp add: demo_model_def demo_processor_def generate_run_def generate_text_def
        last_position_def sample_def argmax_def item_def)

section \<open>The claim about the sampling rule\<close>

text \<open>
  C4. At temperature 0, \<^verbatim>\<open>sample\<close> on a non-empty logits vector returns one index,
  whatever the categorical sampler and the random state are, and leaves the random state
  as it was; the index is in range, no score is greater than the score at the index,
  and every score before the index is strictly smaller.
\<close>

theorem sample_greedy:
  assumes "xs \<noteq> []"
  shows "\<exists>i<length xs.
           (\<forall>categorical g. sample categorical [xs] 0 g = Inr ([int i], g)) \<and>
           (\<forall>j<length xs. xs ! j \<le> xs ! i) \<and> (\<forall>j<i. xs ! j < xs ! i)"
proof -
  from argmax_first_max [OF assms] obtain i where i: "i < length xs" "argmax xs = Inr (int i)"
    "\<forall>j<length xs. xs ! j \<le> xs ! i" "\<forall>j<i. xs ! j < xs ! i" by blast
  have "sample categorical [xs] 0 g = Inr ([int i], g)" for categorical :: "'a sampler" and g
    by (simp add: sample_def i(2))
  with i show ?thesis by blast
qed

theorem sample_greedy_witness:
  "[1, 3, 2, 3 :: real] \<noteq> [] \<and> sample demo_sampler [[1, 3, 2, 3]] 0 5 = Inr ([1], 5)"
  using sample_greedy [of "[1, 3, 2, 3]"]
  by (simp add: sample_def argmax_def)


section \<open>Properties of splitting the prompt\<close>

lemma prefix_append_long:
  "length p \<le> length u \<Longrightarrow> prefix p (u @ v) \<longleftrightarrow> prefix p u"
proof
  assume l: "length p \<le> length u" and p: "prefix p (u @ v)"
  have "prefix u (u @ v)" by simp
  from prefix_length_prefix [OF p this l] show "prefix p u" .
next
  assume "prefix p u"
  then show "prefix p (u @ v)" by simp
qed

lemma str_find_le: "str_find s sep = Some i \<Longrightarrow> i \<le> length s"
  by (induction s arbitrary: i) (auto split: if_splits)

lemma str_find_decomp:
  "str_find s sep = Some i \<Longrightarrow> s = take i s @ sep @ drop (i + length sep) s"
proof (induction s arbitrary: i)
  case Nil
  then show ?case by (simp split: if_splits)
next
  case (Cons c cs)
  show ?case
  proof (cases "prefix sep (c # cs)")
    case True
    then obtain r where r: "c # cs = sep @ r" by (auto simp: prefix_def)
    from True Cons.prems have "i = 0" by simp
    then show ?thesis using r by simp
  next
    case False
    with Cons.prems obtain j where j: "str_find cs sep = Some j" "i = Suc j" by auto
    from Cons.IH [OF j(1)] j(2) show ?thesis by simp
  qed
qed

lemma split_from_found:
  assumes "sep \<noteq> []"
  shows "str_find s sep = Some i \<Longrightarrow>
         split_from sep cur s = (cur @ take i s) # split_from sep [] (drop (i + length sep) s)"
proof (induction s arbitrary: cur i)
  case Nil
  with assms show ?case by simp
next
  case (Cons c cs)
  show ?case
  proof (cases "prefix sep (c # cs)")
    case True
    with Cons.prems have i: "i = 0" by simp
    from assms obtain n where n: "length sep = Suc n" by (cases sep) auto
    show ?thesis using True i n by simp
  next
    case False
    with Cons.prems obtain j where j: "str_find cs sep = Some j" "i = Suc j" by auto
    from Cons.IH [OF j(1), of "cur @ [c]"] False j(2) show ?thesis by simp
  qed
qed

lemma split_from_none:
  assumes "sep \<noteq> []"
  shows "str_find s sep = None \<Longrightarrow> split_from sep cur s = [cur @ s]"
proof (induction s arbitrary: cur)
  case Nil
  show ?case by simp
next
  case (Cons c cs)
  from Cons.prems have np: "\<not> prefix sep (c # cs)" and n: "str_find cs sep = None"
    by (auto split: if_splits)
  from Cons.IH [OF n, of "cur @ [c]"] np show ?case by simp
qed

lemma str_count_find:
  assumes "sep \<noteq> []"
  shows "str_count s sep = (case str_find s sep of None \<Rightarrow> 0
           | Some i \<Rightarrow> Suc (str_count (drop (i + length sep) s) sep))"
proof (induction s)
  case Nil
  with assms show ?case by simp
next
  case (Cons c cs)
  from assms obtain n where n: "length sep = Suc n" by (cases sep) auto
  show ?case
  proof (cases "prefix sep (c # cs)")
    case True
    then show ?thesis using n by simp
  next
    case False
    then show ?thesis using Cons.IH by (simp split: option.splits)
  qed
qed

lemma str_find_retail:
  assumes "sep \<noteq> []"
  shows "str_find (a @ sep @ r) sep = Some (length a) \<Longrightarrow>
         str_find (a @ sep @ r') sep = Some (length a)"
proof (induction a)
  case Nil
  from assms obtain x xs where "sep = x # xs" by (cases sep) auto
  then show ?case by simp
next
  case (Cons x a)
  have long: "length sep \<le> length ((x # a) @ sep)" by simp
  have eq: "prefix sep ((x # a) @ sep @ r') \<longleftrightarrow> prefix sep ((x # a) @ sep @ r)"
    using prefix_append_long [OF long, of r'] prefix_append_long [OF long, of r] by simp
  from Cons.prems have np: "\<not> prefix sep ((x # a) @ sep @ r)"
    by (auto split: if_splits)
  with Cons.prems have "str_find (a @ sep @ r) sep = Some (length a)" by auto
  from Cons.IH [OF this] np eq show ?case by simp
qed

lemma split_from_first:
  assumes "sep \<noteq> []" "str_find (a @ sep @ r) sep = Some (length a)"
  shows "split_from sep [] (a @ sep @ r') = a # split_from sep [] r'"
proof -
  from str_find_retail [OF assms] have "str_find (a @ sep @ r') sep = Some (length a)" .
  from split_from_found [OF assms(1) this, of "[]"] show ?thesis by simp
qed

lemma marker_nonempty: "marker \<noteq> []"
  by (simp add: marker_def)

lemma length_marker: "length marker = 7"
  by (simp add: marker_def)

lemma prepare_inputs_chunks:
  assumes "split_from marker [] prompt = c0 # c1 # others"
  shows "prepare_inputs env ''nanoLlava'' ip p image_src prompt =
           (case (case image_src of Source s \<Rightarrow> load_image env s | Loaded i \<Rightarrow> Inr i) of
              Inl e \<Rightarrow> Inl e
            | Inr img \<Rightarrow>
                (case preprocess ip [img] of Inl e \<Rightarrow> Inl e
                 | Inr [] \<Rightarrow> Inl (IndexError ''list index out of range'')
                 | Inr (pv # _) \<Rightarrow>
                     Inr ([input_ids_of p c0 @ [-200] @ input_ids_of p c1], [pv])))"
  using assms by (simp add: prepare_inputs_def str_split_def marker_nonempty split: sum.splits)

section \<open>The claims about the input preparation\<close>

text \<open>
  C6. Under the model type \<^verbatim>\<open>nanoLlava\<close>, for a prompt that contains the placeholder
  \<^verbatim>\<open><image>\<close> exactly once (\<^verbatim>\<open>prompt.count("<image>") == 1\<close>), at position \<open>i\<close>: the
  prompt is the left segment, the placeholder and the right segment, the right segment
  holds no placeholder, and whenever the image is available and preprocessed,
  \<^verbatim>\<open>prepare_inputs\<close> returns one row of token ids made of the tokens of the left
  segment, the sentinel \<open>-200\<close> and the tokens of the right segment, of length
  \<open>len(left_tokens) + 1 + len(right_tokens)\<close>.
\<close>

theorem prepare_inputs_one_placeholder:
  assumes "str_count prompt marker = 1"
  shows "\<exists>i. str_find prompt marker = Some i \<and>
           prompt = take i prompt @ marker @ drop (i + 7) prompt \<and>
           str_count (drop (i + 7) prompt) marker = 0 \<and>
           (\<forall>img pv rest.
              (case image_src of Source s \<Rightarrow> load_image env s | Loaded i \<Rightarrow> Inr i) = Inr img \<and>
              preprocess ip [img] = Inr (pv # rest) \<longrightarrow>
              prepare_inputs env ''nanoLlava'' ip p image_src prompt
                = Inr ([input_ids_of p (take i prompt) @ [-200] @
                        input_ids_of p (drop (i + 7) prompt)], [pv])) \<and>
           length (input_ids_of p (take i prompt) @ [-200] @ input_ids_of p (drop (i + 7) prompt))
             = length (input_ids_of p (take i prompt)) + 1 +
               length (input_ids_of p (drop (i + 7) prompt))"
proof -
  from assms str_count_find [OF marker_nonempty, of prompt]
  obtain i where i: "str_find prompt marker = Some i"
    and c: "str_count (drop (i + 7) prompt) marker = 0"
    by (auto simp: length_marker split: option.splits)
  from c str_count_find [OF marker_nonempty, of "drop (i + 7) prompt"]
  have n: "str_find (drop (i + 7) prompt) marker = None"
    by (auto split: option.splits)
  have "split_from marker [] prompt = take i prompt # [drop (i + 7) prompt]"
    using split_from_found [OF marker_nonempty i, of "[]"]
      split_from_none [OF marker_nonempty n, of "[]"] by (simp add: length_marker)
  from prepare_inputs_chunks [OF this, where env = env and ip = ip and p = p and image_src = image_src]
  have "\<forall>img pv rest.
              (case image_src of Source s \<Rightarrow> load_image env s | Loaded i \<Rightarrow> Inr i) = Inr img \<and>
              preprocess ip [img] = Inr (pv # rest) \<longrightarrow>
              prepare_inputs env ''nanoLlava'' ip p image_src prompt
                = Inr ([input_ids_of p (take i prompt) @ [-200] @
                        input_ids_of p (drop (i + 7) prompt)], [pv])"
    by simp
  moreover have "prompt = take i prompt @ marker @ drop (i + 7) prompt"
    using str_find_decomp [OF i] by (simp add: length_marker)
  ultimately show ?thesis using i c by auto
qed

theorem prepare_inputs_one_placeholder_witness:
  "str_count ''ab<image>cde'' marker = 1 \<and>
   str_find ''ab<image>cde'' marker = Some 2 \<and>
   prepare_inputs demo_env ''nanoLlava'' demo_image_processor (demo_processor None)
       (Source ''cat.png'') ''ab<image>cde''
     = Inr ([[97, 98, -200, 99, 100, 101]], [3])"
  using prepare_inputs_one_placeholder [where prompt = "''ab<image>cde''"
          and image_src = "Source ''cat.png''" and env = demo_env and ip = demo_image_processor
          and p = "demo_processor None"]
  by (simp add: marker_def prepare_inputs_def str_split_def load_image_def demo_env_def
        demo_image_processor_def demo_processor_def)

text \<open>
  C9. Under the model type \<^verbatim>\<open>nanoLlava\<close>, a prompt that contains the placeholder two or
  more times is \<open>a\<close>, placeholder, \<open>b\<close>, placeholder, \<open>c\<close>, and whatever text \<open>c'\<close>
  stands in the place of \<open>c\<close>, \<^verbatim>\<open>prepare_inputs\<close> returns the tokens of \<open>a\<close>, the
  sentinel and the tokens of \<open>b\<close> whenever the image is available and preprocessed; if
  it raises, the error is that of loading the image or of preprocessing it, never one
  of the prompt.
\<close>

theorem prepare_inputs_many_placeholders:
  assumes "2 \<le> str_count prompt marker"
  shows "\<exists>a b c. prompt = a @ marker @ b @ marker @ c \<and>
           (\<forall>c' img pv rest.
              (case image_src of Source s \<Rightarrow> load_image env s | Loaded i \<Rightarrow> Inr i) = Inr img \<and>
              preprocess ip [img] = Inr (pv # rest) \<longrightarrow>
              prepare_inputs env ''nanoLlava'' ip p image_src (a @ marker @ b @ marker @ c')
                = Inr ([input_ids_of p a @ [-200] @ input_ids_of p b], [pv])) \<and>
           (\<forall>c' e.
              prepare_inputs env ''nanoLlava'' ip p image_src (a @ marker @ b @ marker @ c') = Inl e \<longrightarrow>
              (case image_src of Source s \<Rightarrow> load_image env s | Loaded i \<Rightarrow> Inr i) = Inl e \<or>
              (\<exists>img. (case image_src of Source s \<Rightarrow> load_image env s | Loaded i \<Rightarrow> Inr i) = Inr img \<and>
                 (preprocess ip [img] = Inl e \<or> preprocess ip [img] = Inr [])))"
proof -
  from assms str_count_find [OF marker_nonempty, of prompt]
  obtain i where i: "str_find prompt marker = Some i"
    and c: "1 \<le> str_count (drop (i + 7) prompt) marker"
    by (auto simp: length_marker split: option.splits)
  define rest where "rest = drop (i + 7) prompt"
  from c str_count_find [OF marker_nonempty, of rest]
  obtain j where j: "str_find rest marker = Some j"
    by (auto simp: rest_def split: option.splits)
  define a where "a = take i prompt"
  define b where "b = take j rest"
  define c where "c = drop (j + 7) rest"
  have p: "prompt = a @ marker @ rest"
    using str_find_decomp [OF i] by (simp add: length_marker a_def rest_def)
  have r: "rest = b @ marker @ c"
    using str_find_decomp [OF j] by (simp add: length_marker b_def c_def)
  have la: "length a = i" using str_find_le [OF i] by (simp add: a_def)
  have lb: "length b = j" using str_find_le [OF j] by (simp add: b_def)
  have fa: "str_find (a @ marker @ rest) marker = Some (length a)" using i p la by simp
  have fb: "str_find (b @ marker @ c) marker = Some (length b)" using j r lb by simp
  have chunks: "split_from marker [] (a @ marker @ b @ marker @ c')
                  = a # b # split_from marker [] c'" for c'
    using split_from_first [OF marker_nonempty fa, of "b @ marker @ c'"]
      split_from_first [OF marker_nonempty fb, of c'] by simp
  have split: "True" for c' by simp
  have eq: "prepare_inputs env ''nanoLlava'' ip p image_src (a @ marker @ b @ marker @ c') =
           (case (case image_src of Source s \<Rightarrow> load_image env s | Loaded i \<Rightarrow> Inr i) of
              Inl e \<Rightarrow> Inl e
            | Inr img \<Rightarrow>
                (case preprocess ip [img] of Inl e \<Rightarrow> Inl e
                 | Inr [] \<Rightarrow> Inl (IndexError ''list index out of range'')
                 | Inr (pv # _) \<Rightarrow>
                     Inr ([input_ids_of p a @ [-200] @ input_ids_of p b], [pv])))" for c'
    by (rule prepare_inputs_chunks [OF chunks])
  have ok: "\<forall>c' img pv rest.
              (case image_src of Source s \<Rightarrow> load_image env s | Loaded i \<Rightarrow> Inr i) = Inr img \<and>
              preprocess ip [img] = Inr (pv # rest) \<longrightarrow>
              prepare_inputs env ''nanoLlava'' ip p image_src (a @ marker @ b @ marker @ c')
                = Inr ([input_ids_of p a @ [-200] @ input_ids_of p b], [pv])"
    by (simp add: eq)
  have bad: "\<forall>c' e.
              prepare_inputs env ''nanoLlava'' ip p image_src (a @ marker @ b @ marker @ c') = Inl e \<longrightarrow>
              (case image_src of Source s \<Rightarrow> load_image env s | Loaded i \<Rightarrow> Inr i) = Inl e \<or>
              (\<exists>img. (case image_src of Source s \<Rightarrow> load_image env s | Loaded i \<Rightarrow> Inr i) = Inr img \<and>
                 (preprocess ip [img] = Inl e \<or> preprocess ip [img] = Inr []))"
    unfolding eq by (auto split: sum.splits list.splits)
  from p r ok bad show ?thesis by blast
qed

theorem prepare_inputs_many_placeholders_witness:
  "2 \<le> str_count ''ab<image>c<image>de<image>f'' marker \<and>
   prepare_inputs demo_env ''nanoLlava'' demo_image_processor (demo_processor None)
       (Loaded ''cat'') ''ab<image>c<image>de<image>f''
     = Inr ([[97, 98, -200, 99]], [3])"
  using prepare_inputs_many_placeholders [where prompt = "''ab<image>c<image>de<image>f''"
          and image_src = "Loaded ''cat''" and env = demo_env and ip = demo_image_processor
          and p = "demo_processor None"]
  by (simp add: marker_def prepare_inputs_def str_split_def
        demo_image_processor_def demo_processor_def)

section \<open>The claim about loading the image\<close>

text \<open>
  C7, as stated, lists three conditions under which \<^verbatim>\<open>load_image\<close> raises and says
  that otherwise the image is returned. The list misses one: \<^verbatim>\<open>Image.open(response.raw)\<close>
  stands inside the \<^verbatim>\<open>try\<close> of the URL branch, so a URL whose request succeeds with a
  good status and whose body is no image raises too. In the example environment
  \<^verbatim>\<open>http://host/page.html\<close> is such a URL: the request returns, the status is no error,
  the string names no file and starts with \<^verbatim>\<open>http://\<close>, and \<^verbatim>\<open>load_image\<close> raises.
\<close>

theorem load_image_listed_cases_counterexample:
  "prefix ''http://'' ''http://host/page.html'' \<and>
   requests_get demo_env ''http://host/page.html'' = Inr ''HTML'' \<and>
   raise_for_status demo_env ''HTML'' = Inr () \<and>
   \<not> is_file demo_env ''http://host/page.html'' \<and>
   load_image demo_env ''http://host/page.html'' =
     Inl (ValueError
       ''Failed to load image from URL: http://host/page.html with error cannot identify image file'')"
  by (simp add: load_image_def demo_env_def)

text \<open>
  C7, amended. \<^verbatim>\<open>load_image\<close> raises exactly in these cases: the string starts with
  \<^verbatim>\<open>http://\<close> or \<^verbatim>\<open>https://\<close> and the request fails, or returns an error status, or
  its body does not open as an image; the string is no such URL and names an existing
  file that does not open as an image; the string is no such URL and names no existing
  file. Otherwise it returns the decoded image: the one opened from the response body
  for a URL, the one opened from the file for a path.
\<close>

theorem load_image_raises_exactly:
  "((\<exists>e. load_image env src = Inl e) \<longleftrightarrow>
      ((prefix ''http://'' src \<or> prefix ''https://'' src) \<and>
         ((\<exists>e. requests_get env src = Inl e) \<or>
          (\<exists>resp e. requests_get env src = Inr resp \<and> raise_for_status env resp = Inl e) \<or>
          (\<exists>resp e. requests_get env src = Inr resp \<and> raise_for_status env resp = Inr () \<and>
             image_open_raw env resp = Inl e))) \<or>
      (\<not> (prefix ''http://'' src \<or> prefix ''https://'' src) \<and> is_file env src \<and>
         (\<exists>e. image_open env src = Inl e)) \<or>
      (\<not> (prefix ''http://'' src \<or> prefix ''https://'' src) \<and> \<not> is_file env src)) \<and>
   (\<forall>img. load_image env src = Inr img \<longleftrightarrow>
      ((prefix ''http://'' src \<or> prefix ''https://'' src) \<and>
         (\<exists>resp. requests_get env src = Inr resp \<and> raise_for_status env resp = Inr () \<and>
            image_open_raw env resp = Inr img)) \<or>
      (\<not> (prefix ''http://'' src \<or> prefix ''https://'' src) \<and> is_file env src \<and>
         image_open env src = Inr img))"
proof (intro conjI)
  show "(\<exists>e. load_image env src = Inl e) \<longleftrightarrow>
      ((prefix ''http://'' src \<or> prefix ''https://'' src) \<and>
         ((\<exists>e. requests_get env src = Inl e) \<or>
          (\<exists>resp e. requests_get env src = Inr resp \<and> raise_for_status env resp = Inl e) \<or>
          (\<exists>resp e. requests_get env src = Inr resp \<and> raise_for_status env resp = Inr () \<and>
             image_open_raw env resp = Inl e))) \<or>
      (\<not> (prefix ''http://'' src \<or> prefix ''https://'' src) \<and> is_file env src \<and>
         (\<exists>e. image_open env src = Inl e)) \<or>
      (\<not> (prefix ''http://'' src \<or> prefix ''https://'' src) \<and> \<not> is_file env src)"
  proof (cases "prefix ''http://'' src \<or> prefix ''https://'' src")
    case True
    show ?thesis
    proof (cases "requests_get env src")
      case (Inl e)
      with True show ?thesis by (simp add: load_image_def)
    next
      case (Inr resp)
      show ?thesis
      proof (cases "raise_for_status env resp")
        case (Inl e)
        with True Inr show ?thesis by (simp add: load_image_def)
      next
        case st: (Inr u)
        then have st': "raise_for_status env resp = Inr ()" by simp
        show ?thesis
          using True Inr st' by (cases "image_open_raw env resp") (simp_all add: load_image_def)
      qed
    qed
  next
    case False
    show ?thesis
    proof (cases "is_file env src")
      case True
      show ?thesis
      proof (cases "image_open env src")
        case (Inl e)
        with False True show ?thesis by (cases e) (simp_all add: load_image_def)
      next
        case (Inr img)
        with False True show ?thesis by (simp add: load_image_def)
      qed
    next
      case nf: False
      with False show ?thesis by (simp add: load_image_def)
    qed
  qed
  show "\<forall>img. load_image env src = Inr img \<longleftrightarrow>
      ((prefix ''http://'' src \<or> prefix ''https://'' src) \<and>
         (\<exists>resp. requests_get env src = Inr resp \<and> raise_for_status env resp = Inr () \<and>
            image_open_raw env resp = Inr img)) \<or>
      (\<not> (prefix ''http://'' src \<or> prefix ''https://'' src) \<and> is_file env src \<and>
         image_open env src = Inr img)"
    unfolding load_image_def by (auto split: sum.splits error.splits)
qed

theorem load_image_raises_exactly_witness:
  "prefix ''http://'' ''http://host/down'' \<and>
   requests_get demo_env ''http://host/down'' = Inl (OtherError ''connection refused'') \<and>
   load_image demo_env ''http://host/down'' =
     Inl (ValueError ''Failed to load image from URL: http://host/down with error connection refused'') \<and>
   load_image demo_env ''http://host/cat.jpg'' = Inr ''cat'' \<and>
   load_image demo_env ''cat.png'' = Inr ''cat'' \<and>
   load_image demo_env ''notes.txt'' =
     Inl (ValueError ''Failed to load image notes.txt with error: cannot identify image file'') \<and>
   load_image demo_env ''missing.png'' =
     Inl (ValueError ''The image missing.png must be a valid URL or existing file.'')"
  using load_image_raises_exactly [of demo_env "''http://host/down''"]
  by (simp add: load_image_def demo_env_def)

section \<open>The claim about the driver\<close>

text \<open>
  C8. When the processor has neither the key \<^verbatim>\<open>chat_template\<close> nor the key
  \<^verbatim>\<open>tokenizer\<close>, \<^verbatim>\<open>main\<close> raises nothing at the template step: its result is that of
  preparing the inputs from the prompt as decoded from the command line, unchanged, and
  generating from them, and an error of \<^verbatim>\<open>main\<close> is then an error of one of these two
  steps.
\<close>

theorem main_without_chat_template:
  assumes "load_model (arg_model a) = Inr (processor, m, image_processor, model_type)"
    and "\<not> has_chat_template processor" and "\<not> has_tokenizer processor"
    and "unicode_escape (arg_prompt a) = Inr prompt"
  shows "main env load_model unicode_escape cat a g =
           (case prepare_inputs env model_type image_processor processor
                   (Source (arg_image a)) prompt of
              Inl e \<Rightarrow> Inl e
            | Inr (input_ids, pixel_values) \<Rightarrow>
                generate_text input_ids pixel_values m processor cat
                  (arg_max_tokens a) (arg_temp a) g) \<and>
         (\<forall>e. main env load_model unicode_escape cat a g = Inl e \<longrightarrow>
            prepare_inputs env model_type image_processor processor
              (Source (arg_image a)) prompt = Inl e \<or>
            (\<exists>input_ids pixel_values.
               prepare_inputs env model_type image_processor processor
                 (Source (arg_image a)) prompt = Inr (input_ids, pixel_values) \<and>
               generate_text input_ids pixel_values m processor cat
                 (arg_max_tokens a) (arg_temp a) g = Inl e))"
  using assms by (auto simp: main_def split: sum.splits)

theorem main_without_chat_template_witness:
  "\<not> has_chat_template (demo_processor (Some 1)) \<and> \<not> has_tokenizer (demo_processor (Some 1)) \<and>
   main demo_env demo_load_model Inr demo_sampler demo_args 0
     = Inr (decode (demo_processor (Some 1)) [2, 0], 0)"
proof -
  have l: "demo_load_model (arg_model demo_args)
             = Inr (demo_processor (Some 1), demo_model, demo_image_processor, ''nanoLlava'')"
    by (simp add: demo_load_model_def)
  have c: "\<not> has_chat_template (demo_processor (Some 1))"
    and t: "\<not> has_tokenizer (demo_processor (Some 1))"
    by (simp_all add: demo_processor_def)
  have u: "Inr (arg_prompt demo_args) = (Inr ''<image>What are these?'' :: error + string)"
    by (simp add: demo_args_def)
  have p: "prepare_inputs demo_env ''nanoLlava'' demo_image_processor (demo_processor (Some 1))
             (Source (arg_image demo_args)) ''<image>What are these?''
           = Inr ([[-200, 87, 104, 97, 116, 32, 97, 114, 101, 32, 116, 104, 101, 115, 101, 63]], [3])"
    by (simp add: marker_def prepare_inputs_def str_split_def load_image_def demo_env_def
          demo_image_processor_def demo_processor_def demo_args_def)
  have g: "generate_text [[-200, 87, 104, 97, 116, 32, 97, 114, 101, 32, 116, 104, 101, 115, 101, 63]] [3]
             demo_model (demo_processor (Some 1)) demo_sampler (arg_max_tokens demo_args)
             (arg_temp demo_args) 0
           = Inr (decode (demo_processor (Some 1)) [2, 0], 0)"
    by (simp add: demo_model_def demo_processor_def generate_run_def generate_text_def
          last_position_def sample_def argmax_def item_def demo_args_def eval_nat_numeral)
  from main_without_chat_template [where load_model = demo_load_model and a = demo_args
      and unicode_escape = Inr and processor = "demo_processor (Some 1)" and m = demo_model
      and image_processor = demo_image_processor and model_type = "''nanoLlava''"
      and prompt = "''<image>What are these?''" and env = demo_env and cat = demo_sampler
      and g = 0] l c t u p g
  show ?thesis by simp
qed

end
